theory Spec2Isabelle
  imports Complex_Main "HOL-Library.Multiset" "HOL-Library.Log_Nat"
begin

section \<open>Numbers\<close>

text \<open>
  The functions of \<^verbatim>\<open>bingoUtils.ts\<close> compute with JavaScript numbers, which are IEEE
  doubles. Counts, grid sizes and indices are integers (\<open>int\<close>, \<open>nat\<close> for array lengths), on
  which the model computes exactly. A finite double is a rational number, and the sizes
  of the unit converter are values of \<open>rat\<close>: each multiplication and division there
  gives the exact result rounded to the nearest double, \<open>double\<close> below, as the processor
  does. \<^verbatim>\<open>Math.round(x)\<close> is the integer nearest to \<open>x\<close>, a tie going upwards, and
  \<^verbatim>\<open>Math.floor(x)\<close> the integer part; both are exact on the double they are given.
  The product that gives the random index of the shuffle, and the page geometry of the
  export, are computed on the exact rationals.
\<close>

definition Math_round :: "rat \<Rightarrow> int" where
  "Math_round x = \<lfloor>x + 1 / 2\<rfloor>"

definition Math_floor :: "rat \<Rightarrow> int" where
  "Math_floor x = \<lfloor>x\<rfloor>"

text \<open>
  Rounding to a double. For \<open>x\<close> other than 0, \<open>exponent x\<close> is the integer \<open>e\<close> with
  \<open>2 ^ e \<le> \<bar>x\<bar> < 2 ^ (e + 1)\<close>; the doubles of that binade are the multiples of
  \<open>2 ^ (e - 52)\<close>, and \<open>x\<close> goes to the nearest one, a tie going to the even multiple.
  Overflow to infinity and the subnormal numbers (magnitudes from \<open>2 ^ 1024\<close> and
  below \<open>2 ^ (-1022)\<close>) are not modelled.
\<close>

definition exponent :: "rat \<Rightarrow> int" where
  "exponent x =
     (if 1 \<le> \<bar>x\<bar> then bitlen \<lfloor>\<bar>x\<bar>\<rfloor> - 1 else - bitlen (\<lceil>1 / \<bar>x\<bar>\<rceil> - 1))"

definition roundHalfEven :: "rat \<Rightarrow> int" where
  "roundHalfEven x =
     (let f = \<lfloor>x\<rfloor>; r = x - of_int f in
      if r < 1 / 2 then f else if 1 / 2 < r then f + 1 else if even f then f else f + 1)"

definition double :: "rat \<Rightarrow> rat" where
  "double x =
     (if x = 0 then 0
      else let ulp = 2 powi (exponent x - 52) in of_int (roundHalfEven (x / ulp)) * ulp)"

section \<open>Size presets and unit conversion\<close>

datatype sizeUnit = Px | Mm

datatype preset = A4 | Letter | Custom

record dimensions =
  width :: rat
  height :: rat

definition dpi :: rat where
  "dpi = 96"

text \<open>
  \<^verbatim>\<open>dpi / 25.4\<close>: the literal 25.4 is the double nearest to it, and the quotient is rounded
  again.
\<close>

definition mmToPx :: rat where
  "mmToPx = double (dpi / double (254 / 10))"

definition getSizePresetDimensions :: "preset \<Rightarrow> sizeUnit \<Rightarrow> dimensions" where
  "getSizePresetDimensions p u =
     (if p = A4 then
        (if u = Mm then \<lparr>width = 210, height = 297\<rparr>
         else \<lparr>width = of_int (Math_round (double (210 * mmToPx))),
               height = of_int (Math_round (double (297 * mmToPx)))\<rparr>)
      else if p = Letter then
        (if u = Mm then \<lparr>width = 216, height = 279\<rparr>
         else \<lparr>width = of_int (Math_round (double (216 * mmToPx))),
               height = of_int (Math_round (double (279 * mmToPx)))\<rparr>)
      else \<lparr>width = 600, height = 800\<rparr>)"

definition convertSize :: "rat \<Rightarrow> sizeUnit \<Rightarrow> sizeUnit \<Rightarrow> rat" where
  "convertSize v from to =
     (if from = to then v
      else if from = Mm \<and> to = Px then of_int (Math_round (double (v * mmToPx)))
      else if from = Px \<and> to = Mm then of_int (Math_round (double (v / mmToPx)))
      else v)"

section \<open>Word counts\<close>

definition calculateRequiredWords :: "int \<Rightarrow> int \<Rightarrow> int" where
  "calculateRequiredWords gridSize numCards =
     (let cellsPerCard = gridSize * gridSize in cellsPerCard * numCards)"

definition isWordCountSufficient :: "int \<Rightarrow> int \<Rightarrow> int \<Rightarrow> bool" where
  "isWordCountSufficient wordCount gridSize numCards =
     (let required = gridSize * gridSize in wordCount \<ge> required)"

section \<open>Strings\<close>

text \<open>
  A JavaScript string is a sequence of UTF-16 code units. The model is \<open>string\<close>, whose
  characters are the code units 0 to 255 (the Latin-1 range). On that range
  \<^verbatim>\<open>String.prototype.trim\<close> removes TAB, LF, VT, FF, CR, SPACE and NBSP from both ends,
  and \<^verbatim>\<open>toLowerCase\<close> maps A to Z and the accented capitals U+00C0 to U+00DE (the
  multiplication sign U+00D7 apart) to the code unit 32 places higher.
\<close>

definition isWhiteSpace :: "char \<Rightarrow> bool" where
  "isWhiteSpace c = (of_char c \<in> {9, 10, 11, 12, 13, 32, 160 :: nat})"

definition trim :: "string \<Rightarrow> string" where
  "trim s = rev (dropWhile isWhiteSpace (rev (dropWhile isWhiteSpace s)))"

definition lowerChar :: "char \<Rightarrow> char" where
  "lowerChar c =
     (let n = of_char c :: nat in
      if (65 \<le> n \<and> n \<le> 90) \<or> (192 \<le> n \<and> n \<le> 222 \<and> n \<noteq> 215)
      then char_of (n + 32) else c)"

definition toLowerCase :: "string \<Rightarrow> string" where
  "toLowerCase s = map lowerChar s"

text \<open>\<^verbatim>\<open>xs.join(sep)\<close> on an array of strings.\<close>

fun join :: "string \<Rightarrow> string list \<Rightarrow> string" where
  "join sep [] = []"
| "join sep [w] = w"
| "join sep (w # v # ws) = w @ sep @ join sep (v # ws)"

text \<open>
  The decimal text a template literal gives an integer: \<^verbatim>\<open>`${n}`\<close>.
\<close>

fun showNat :: "nat \<Rightarrow> string" where
  "showNat n =
     (if n < 10 then [char_of (48 + n)]
      else showNat (n div 10) @ [char_of (48 + n mod 10)])"

declare showNat.simps [simp del]

definition showInt :: "int \<Rightarrow> string" where
  "showInt i = (if i < 0 then CHR ''-'' # showNat (nat (- i)) else showNat (nat i))"

section \<open>Word processing\<close>

text \<open>
  \<^verbatim>\<open>input.split(/[,\n]+/)\<close>: the pieces of the input between the successive matches
  of the pattern, a match being a maximal run of commas and line feeds. The piece before
  the first match and the piece after the last one are kept even when they are empty.
\<close>

definition isSeparator :: "char \<Rightarrow> bool" where
  "isSeparator c = (c = CHR '','' \<or> c = CHR 0x0A)"

function split :: "string \<Rightarrow> string list" where
  "split s =
     (let piece = takeWhile (\<lambda>c. \<not> isSeparator c) s;
          rest = dropWhile (\<lambda>c. \<not> isSeparator c) s
      in if rest = [] then [piece] else piece # split (dropWhile isSeparator rest))"
  by pat_completeness auto
termination
proof (relation "measure length")
  fix s piece rest
  assume r: "rest = dropWhile (\<lambda>c. \<not> isSeparator c) s" and ne: "rest \<noteq> []"
  from ne obtain c cs where rc: "rest = c # cs" by (cases rest) auto
  have "length (dropWhile isSeparator rest) \<le> length rest"
    by (rule length_dropWhile_le)
  moreover have "isSeparator c"
    using r rc dropWhile_eq_Cons_conv [of "\<lambda>c. \<not> isSeparator c" s c cs] by simp
  then have "length (dropWhile isSeparator rest) < length rest"
    using rc length_dropWhile_le [of isSeparator cs] by simp
  moreover have "length rest \<le> length s"
    unfolding r by (rule length_dropWhile_le)
  ultimately show "(dropWhile isSeparator rest, s) \<in> measure length"
    by simp
qed simp

declare split.simps [simp del]

text \<open>
  The loop of \<open>processWords\<close> over the candidate words, with its set \<open>seen\<close> of
  lower-cased words and its output array \<open>unique\<close>.
\<close>

fun uniqueLoop :: "string list \<Rightarrow> string set \<Rightarrow> string list \<Rightarrow> string list" where
  "uniqueLoop [] seen unique = unique"
| "uniqueLoop (word # rest) seen unique =
     (let lowerWord = toLowerCase word in
      if lowerWord \<notin> seen then uniqueLoop rest (insert lowerWord seen) (unique @ [word])
      else uniqueLoop rest seen unique)"

definition processWords :: "string \<Rightarrow> string list" where
  "processWords input =
     (if input = [] then []
      else let words = filter (\<lambda>word. length word > 0) (map trim (split input))
           in uniqueLoop words {} [])"

subsection \<open>The word processor as the specification words it\<close>

text \<open>
  The specification's \<open>process\<close>, step by step: cut the text at every run of one or more
  separators, trim each candidate, drop the empty ones, and keep of each group of words
  that are equal up to case the first one, in the order of first appearance.
\<close>

fun cutAtRuns :: "bool \<Rightarrow> string \<Rightarrow> string \<Rightarrow> string list" where
  "cutAtRuns inRun cur [] = [rev cur]"
| "cutAtRuns inRun cur (c # cs) =
     (if isSeparator c then
        (if inRun then cutAtRuns True [] cs else rev cur # cutAtRuns True [] cs)
      else cutAtRuns False (c # cur) cs)"

fun keepFirst :: "string list \<Rightarrow> string list" where
  "keepFirst [] = []"
| "keepFirst (w # ws) = w # keepFirst (filter (\<lambda>v. toLowerCase v \<noteq> toLowerCase w) ws)"

definition process_spec :: "string \<Rightarrow> string list" where
  "process_spec rawInput =
     keepFirst (filter (\<lambda>w. w \<noteq> []) (map trim (cutAtRuns False [] rawInput)))"

section \<open>Card generation\<close>

record CardConfig =
  gridSize :: int
  numCards :: int
  allowRepetition :: bool

text \<open>
  The fields \<^verbatim>\<open>id\<close> and \<^verbatim>\<open>gridSize\<close> of a card are \<open>cardId\<close> and \<open>cardGridSize\<close>
  here (\<open>id\<close> is the identity function of HOL, \<open>gridSize\<close> the field of the
  configuration).
\<close>

record BingoCard =
  cardId :: string
  words :: "string list"
  cardGridSize :: int

text \<open>\<^verbatim>\<open>new Error(message)\<close>, thrown.\<close>

datatype error = Error string

text \<open>
  \<^verbatim>\<open>Math.random()\<close> is the only effect of the generator. The random source is the
  sequence \<open>rnd\<close> of the values it returns, and the state threaded through the functions
  is the number of calls made so far: the next call returns \<open>rnd calls\<close>. ECMAScript
  promises values that are at least 0 and less than 1; \<open>unitSource\<close> says so, and the
  theorems about shuffling assume it (outside it the index \<open>j\<close> below could leave the
  array).
\<close>

type_synonym randomSource = "nat \<Rightarrow> rat"

definition unitSource :: "randomSource \<Rightarrow> bool" where
  "unitSource rnd = (\<forall>k. 0 \<le> rnd k \<and> rnd k < 1)"

text \<open>
  The loop of \<open>shuffleArray\<close>, from index \<open>i\<close> down to 1: draw \<open>j\<close> in \<open>0..i\<close> and
  exchange the entries at \<open>i\<close> and \<open>j\<close>.
\<close>

fun shuffleLoop :: "randomSource \<Rightarrow> nat \<Rightarrow> 'a list \<Rightarrow> nat \<Rightarrow> 'a list \<times> nat" where
  "shuffleLoop rnd 0 shuffled calls = (shuffled, calls)"
| "shuffleLoop rnd (Suc k) shuffled calls =
     (let i = Suc k;
          j = nat (Math_floor (rnd calls * (of_nat i + 1)))
      in shuffleLoop rnd k (shuffled[i := shuffled ! j, j := shuffled ! i]) (Suc calls))"

definition shuffleArray :: "randomSource \<Rightarrow> 'a list \<Rightarrow> nat \<Rightarrow> 'a list \<times> nat" where
  "shuffleArray rnd array calls = shuffleLoop rnd (length array - 1) array calls"

definition generateSingleCard ::
  "randomSource \<Rightarrow> string list \<Rightarrow> int \<Rightarrow> string \<Rightarrow> nat \<Rightarrow> error + (BingoCard \<times> nat)" where
  "generateSingleCard rnd availableWords g cid calls =
     (let cellsNeeded = g * g in
      if int (length availableWords) < cellsNeeded then
        Inl (Error (''Not enough unique words. Need '' @ showInt cellsNeeded
                    @ '', have '' @ showInt (int (length availableWords))))
      else
        let (shuffled, calls') = shuffleArray rnd availableWords calls;
            selectedWords = take (nat cellsNeeded) shuffled
        in Inr (\<lparr>cardId = cid, words = selectedWords, cardGridSize = g\<rparr>, calls'))"

text \<open>
  The loop of \<open>generateBingoCards\<close> over \<open>i\<close>, with both branches of the test on
  \<open>allowRepetition\<close> as the source writes them.
\<close>

function cardsLoop ::
  "randomSource \<Rightarrow> string list \<Rightarrow> CardConfig \<Rightarrow> int \<Rightarrow> BingoCard list \<Rightarrow> nat
   \<Rightarrow> error + (BingoCard list \<times> nat)" where
  "cardsLoop rnd ws config i cards calls =
     (if i < numCards config then
        (if allowRepetition config then
           (case generateSingleCard rnd ws (gridSize config) (''card-'' @ showInt (i + 1)) calls of
              Inl e \<Rightarrow> Inl e
            | Inr (card', calls') \<Rightarrow> cardsLoop rnd ws config (i + 1) (cards @ [card']) calls')
         else
           (case generateSingleCard rnd ws (gridSize config) (''card-'' @ showInt (i + 1)) calls of
              Inl e \<Rightarrow> Inl e
            | Inr (card', calls') \<Rightarrow> cardsLoop rnd ws config (i + 1) (cards @ [card']) calls'))
      else Inr (cards, calls))"
  by pat_completeness auto
termination
  by (relation "measure (\<lambda>(rnd, ws, config, i, cards, calls). nat (numCards config - i))") auto

declare cardsLoop.simps [simp del]

definition generateBingoCards ::
  "randomSource \<Rightarrow> string list \<Rightarrow> CardConfig \<Rightarrow> nat \<Rightarrow> error + (BingoCard list \<times> nat)" where
  "generateBingoCards rnd ws config calls =
     (let cellsPerCard = gridSize config * gridSize config in
      if int (length ws) < cellsPerCard then
        Inl (Error (''Not enough unique words. Need at least '' @ showInt cellsPerCard
                    @ '', have '' @ showInt (int (length ws))))
      else cardsLoop rnd ws config 0 [] calls)"

section \<open>Export to a paginated document\<close>

text \<open>
  \<open>exportCardsToPDF\<close> of \<^verbatim>\<open>fileUtils.ts\<close> drives the browser and two libraries, and each
  of their calls inside the \<^verbatim>\<open>try\<close> block may throw. They are the fields of \<open>libraries\<close>,
  the parameter \<open>L\<close> of the export:
  \<^item> \<open>html2canvas\<close> turns an element into a canvas, or rejects (\<open>Inl\<close>, with the message);
  \<^item> \<open>toDataURL\<close> gives the PNG data URL of a canvas, or throws;
  \<^item> \<open>addImageError\<close> is the message \<^verbatim>\<open>jsPDF\<close> throws when asked to add this image at this
    place and size, \<open>None\<close> when it adds it.
  Of the canvas the export reads the width and the height.
\<close>

record canvas =
  canvasWidth :: rat
  canvasHeight :: rat
  pixels :: string

text \<open>
  The \<^verbatim>\<open>jsPDF\<close> document is the list of its pages in order, a page being the list of
  the images added to it. A new document has one empty page, \<^verbatim>\<open>addPage\<close> appends an
  empty page, and \<^verbatim>\<open>addImage\<close> draws on the page added last, or throws. The page width and
  height the export reads from the document are the parameters \<open>pageWidth\<close> and
  \<open>pageHeight\<close>.
\<close>

record placedImage =
  imgData :: string
  xPos :: rat
  yPos :: rat
  imgWidth :: rat
  imgHeight :: rat

record 'e libraries =
  html2canvas :: "'e \<Rightarrow> string + canvas"
  toDataURL :: "canvas \<Rightarrow> string + string"
  addImageError :: "placedImage \<Rightarrow> string option"

type_synonym pdf = "placedImage list list"

definition jsPDF :: pdf where
  "jsPDF = [[]]"

definition addPage :: "pdf \<Rightarrow> pdf" where
  "addPage doc = doc @ [[]]"

definition addImage ::
  "(placedImage \<Rightarrow> string option) \<Rightarrow> string \<Rightarrow> rat \<Rightarrow> rat \<Rightarrow> rat \<Rightarrow> rat \<Rightarrow> pdf \<Rightarrow> string + pdf" where
  "addImage err d x y w h doc =
     (let img = \<lparr>imgData = d, xPos = x, yPos = y, imgWidth = w, imgHeight = h\<rparr> in
      case err img of
        Some message \<Rightarrow> Inl message
      | None \<Rightarrow> Inr (doc[length doc - 1 := doc ! (length doc - 1) @ [img]]))"

datatype layout = OnePerPage | MultiplePerPage

text \<open>
  The loop of \<open>exportCardsToPDF\<close>: \<open>i\<close> is the index of the first of the elements still to
  export, and the first call that throws ends the loop with its message. (In the
  one-per-page branch a canvas of width 0 makes JavaScript compute with Infinity or NaN,
  which \<open>rat\<close> does not have; nothing below is about that branch.)
\<close>

fun exportLoop ::
  "'e libraries \<Rightarrow> layout \<Rightarrow> rat \<Rightarrow> rat \<Rightarrow> nat \<Rightarrow> 'e list \<Rightarrow> pdf \<Rightarrow> string + pdf" where
  "exportLoop L lay pageWidth pageHeight i [] doc = Inr doc"
| "exportLoop L lay pageWidth pageHeight i (element # rest) doc =
     (case html2canvas L element of
        Inl message \<Rightarrow> Inl message
      | Inr cv \<Rightarrow>
         (case toDataURL L cv of
            Inl message \<Rightarrow> Inl message
          | Inr data \<Rightarrow>
              if lay = OnePerPage then
                (let doc1 = (if i > 0 then addPage doc else doc);
                     margin = 10;
                     availWidth = pageWidth - margin * 2;
                     w = availWidth;
                     h = (canvasHeight cv / canvasWidth cv) * w;
                     y = (pageHeight - h) / 2
                 in case addImage (addImageError L) data margin y w h doc1 of
                      Inl message \<Rightarrow> Inl message
                    | Inr doc2 \<Rightarrow> exportLoop L lay pageWidth pageHeight (i + 1) rest doc2)
              else
                (let cardsPerPage = 4;
                     cardIndex = i mod cardsPerPage;
                     doc1 = (if cardIndex = 0 \<and> i > 0 then addPage doc else doc);
                     cardWidth = (pageWidth - 20) / 2;
                     cardHeight = (pageHeight - 20) / 2;
                     col = cardIndex mod 2;
                     row = cardIndex div 2;
                     x = 10 + of_nat col * (cardWidth + 5);
                     y = 10 + of_nat row * (cardHeight + 5)
                 in case addImage (addImageError L) data x y cardWidth cardHeight doc1 of
                      Inl message \<Rightarrow> Inl message
                    | Inr doc2 \<Rightarrow> exportLoop L lay pageWidth pageHeight (i + 1) rest doc2)))"

text \<open>
  The result is the file saved, its name and its pages, or the error the \<^verbatim>\<open>catch\<close>
  clause throws.
\<close>

definition exportCardsToPDF ::
  "'e libraries \<Rightarrow> 'e list \<Rightarrow> string \<Rightarrow> layout \<Rightarrow> rat \<Rightarrow> rat \<Rightarrow> error + (string \<times> pdf)" where
  "exportCardsToPDF L cardElements filename lay pageWidth pageHeight =
     (case exportLoop L lay pageWidth pageHeight 0 cardElements jsPDF of
        Inl message \<Rightarrow> Inl (Error (''PDF export failed: '' @ message))
      | Inr doc \<Rightarrow> Inr (filename, doc))"

subsection \<open>The grid layout as the specification words it\<close>

text \<open>
  Up to 4 cards on a page, the page index advancing every 4th card: card \<open>i\<close> is on page
  \<open>i div 4\<close> at place \<open>i mod 4\<close>, and there are as many pages as the cards need.
\<close>

definition gridPages :: "'a list \<Rightarrow> 'a list list" where
  "gridPages cards = map (\<lambda>p. take 4 (drop (4 * p) cards)) [0..<(length cards + 3) div 4]"

text \<open>
  Where and how large the grid layout draws the card of index \<open>i\<close>, whose data URL is
  \<open>d\<close>.
\<close>

definition gridPlace :: "rat \<Rightarrow> rat \<Rightarrow> nat \<Rightarrow> string \<Rightarrow> placedImage" where
  "gridPlace pageWidth pageHeight i d =
     \<lparr>imgData = d,
      xPos = 10 + of_nat (i mod 4 mod 2) * ((pageWidth - 20) / 2 + 5),
      yPos = 10 + of_nat (i mod 4 div 2) * ((pageHeight - 20) / 2 + 5),
      imgWidth = (pageWidth - 20) / 2,
      imgHeight = (pageHeight - 20) / 2\<rparr>"

section \<open>Properties of the unit converter\<close>

text \<open>The ratio as a double: 3.7795275590551185.\<close>

lemma mmToPx_value: "mmToPx = 531921215831161 / 140737488355328"
  by code_simp

lemma preset_pixels:
  "Math_round (double (210 * mmToPx)) = 794" "Math_round (double (297 * mmToPx)) = 1123"
  "Math_round (double (216 * mmToPx)) = 816" "Math_round (double (279 * mmToPx)) = 1054"
  by code_simp+

text \<open>
  C8: the A4 preset is 210 by 297 in millimetres, and in pixels it is the nearest
  integers to 210 * 96 / 25.4 and 297 * 96 / 25.4, which are 794 and 1123.
\<close>

theorem A4_preset_dimensions:
  "getSizePresetDimensions A4 Mm = \<lparr>width = 210, height = 297\<rparr>
   \<and> getSizePresetDimensions A4 Px = \<lparr>width = 794, height = 1123\<rparr>
   \<and> Math_round (210 * 96 / (254 / 10)) = 794
   \<and> Math_round (297 * 96 / (254 / 10)) = 1123"
  by (simp add: getSizePresetDimensions_def preset_pixels) (simp add: Math_round_def floor_eq_iff)

text \<open>
  C10: the Custom preset is 600 by 800 whatever unit is asked for; the unit only
  changes the numbers of the A4 and Letter presets.
\<close>

theorem Custom_preset_ignores_unit:
  "getSizePresetDimensions Custom u = \<lparr>width = 600, height = 800\<rparr>
   \<and> getSizePresetDimensions A4 Px \<noteq> getSizePresetDimensions A4 Mm
   \<and> getSizePresetDimensions Letter Px \<noteq> getSizePresetDimensions Letter Mm"
  by (simp add: getSizePresetDimensions_def preset_pixels)

section \<open>Properties of the word count check\<close>

text \<open>
  C3: \<open>isWordCountSufficient n g k\<close> holds exactly when \<open>n\<close> is at least \<open>g\<close> squared,
  and the number of cards \<open>k\<close> plays no part in the answer.
\<close>

theorem isWordCountSufficient_threshold:
  "isWordCountSufficient n g k = (n \<ge> g\<^sup>2)
   \<and> isWordCountSufficient n g k = isWordCountSufficient n g k'"
  by (simp add: isWordCountSufficient_def power2_eq_square)

section \<open>The round trip of the unit converter\<close>

text \<open>
  Rounding to a double moves a number by at most the fraction \<open>2 ^ (-53)\<close> of itself.
\<close>

lemma exponent_le:
  assumes "x \<noteq> 0"
  shows "2 powi (exponent x) \<le> \<bar>x\<bar>"
proof (cases "1 \<le> \<bar>x\<bar>")
  case True
  define n where "n = \<lfloor>\<bar>x\<bar>\<rfloor>"
  have n: "0 < n" using True by (simp add: n_def)
  have e: "exponent x = bitlen n - 1" using True by (simp add: exponent_def n_def)
  have "1 \<le> bitlen n" using n bitlen_eq_zero_iff [of n] bitlen_nonneg [of n] by linarith
  then have "(2::rat) powi (exponent x) = 2 ^ nat (bitlen n - 1)"
    by (simp add: e power_int_def)
  also have "\<dots> = of_int (2 ^ nat (bitlen n - 1))" by simp
  also have "\<dots> \<le> of_int n" using bitlen_bounds [OF n] by (simp only: of_int_le_iff)
  also have "\<dots> \<le> \<bar>x\<bar>" by (simp add: n_def)
  finally show ?thesis .
next
  case False
  define y where "y = 1 / \<bar>x\<bar>"
  define k where "k = \<lceil>y\<rceil> - 1"
  have xpos: "0 < \<bar>x\<bar>" using assms by simp
  have y1: "1 < y" using False xpos by (simp add: y_def)
  then have k: "0 < k" unfolding k_def by linarith
  have e: "exponent x = - bitlen k" using False by (simp add: exponent_def k_def y_def)
  have "k < 2 ^ nat (bitlen k)" using bitlen_bounds [OF k] by simp
  then have c: "\<lceil>y\<rceil> \<le> 2 ^ nat (bitlen k)" by (simp add: k_def)
  have "y \<le> of_int \<lceil>y\<rceil>" by (rule le_of_int_ceiling)
  also have "\<dots> \<le> of_int (2 ^ nat (bitlen k))" using c by (simp only: of_int_le_iff)
  also have "\<dots> = 2 ^ nat (bitlen k)" by simp
  finally have yle: "y \<le> 2 ^ nat (bitlen k)" .
  have "(2::rat) powi (exponent x) = 1 / 2 ^ nat (bitlen k)"
    using bitlen_nonneg [of k] by (simp add: e power_int_def field_simps)
  also have "\<dots> \<le> 1 / y" using yle y1 by (simp add: frac_le)
  also have "\<dots> = \<bar>x\<bar>" by (simp add: y_def)
  finally show ?thesis .
qed

lemma roundHalfEven_error: "\<bar>of_int (roundHalfEven m) - m\<bar> \<le> 1 / 2"
proof -
  have "of_int \<lfloor>m\<rfloor> \<le> m" "m < of_int \<lfloor>m\<rfloor> + 1" by linarith+
  then show ?thesis by (auto simp: roundHalfEven_def Let_def)
qed

lemma double_error: "\<bar>double x - x\<bar> \<le> \<bar>x\<bar> / 2 ^ 53"
proof (cases "x = 0")
  case True
  then show ?thesis by (simp add: double_def)
next
  case False
  define u :: rat where "u = 2 powi (exponent x - 52)"
  have upos: "0 < u" by (simp add: u_def)
  have "u = 2 powi (exponent x) / 2 ^ 52"
    by (simp add: u_def power_int_diff)
  then have ule: "u \<le> \<bar>x\<bar> / 2 ^ 52" using exponent_le [OF False] by (simp add: divide_right_mono)
  have "double x - x = u * (of_int (roundHalfEven (x / u)) - x / u)"
    using False upos by (simp add: double_def Let_def u_def [symmetric] algebra_simps)
  then have "\<bar>double x - x\<bar> = u * \<bar>of_int (roundHalfEven (x / u)) - x / u\<bar>"
    using upos by (simp add: abs_mult)
  also have "\<dots> \<le> u * (1 / 2)"
    using roundHalfEven_error [of "x / u"] upos by (intro mult_left_mono) simp_all
  also have "\<dots> \<le> \<bar>x\<bar> / 2 ^ 53" using ule by simp
  finally show ?thesis .
qed


text \<open>Conversions of single values, as the doubles give them.\<close>

lemma convertSize_examples:
  "convertSize 2 Px Mm = 1" "convertSize 1 Mm Px = 4"
  "convertSize 240 Px Mm = 63" "convertSize 63 Mm Px = 238"
  "convertSize 4255556399089510 Px Mm = 1125949297259100"
  "convertSize 1125949297259100 Mm Px = 4255556399089513"
  by code_simp+

text \<open>
  C6, as stated: the round trip of an integer pixel value through millimetres is within
  1 of the value. It fails at 2 pixels, which become 1 millimetre and then 4 pixels.
\<close>

theorem convertSize_roundtrip_counterexample:
  "\<not> \<bar>convertSize (convertSize 2 Px Mm) Mm Px - 2\<bar> \<le> 1"
  by (simp add: convertSize_examples)

text \<open>
  Nor is 2 a bound for every integer: for large values the rounding of the quotient
  and of the product to doubles adds to the two roundings to integers, and
  4255556399089510 pixels come back as 4255556399089513.
\<close>

lemma convertSize_roundtrip_large:
  "convertSize (convertSize 4255556399089510 Px Mm) Mm Px - 4255556399089510 = 3"
  by (simp add: convertSize_examples)

text \<open>
  C6, amended: the round trip of an integer pixel value of magnitude at most \<open>2 ^ 51\<close>
  through millimetres is within 2 of the value.
\<close>

theorem convertSize_roundtrip_within_two:
  assumes "\<bar>v\<bar> \<le> 2 ^ 51"
  shows "\<bar>convertSize (convertSize (of_int v) Px Mm) Mm Px - of_int v\<bar> \<le> 2"
proof -
  define C :: rat where "C = 531921215831161 / 140737488355328"
  define K :: rat where "K = (2 ^ 51 / C) / 2 ^ 53"
  define W :: rat where "W = (K + 1 / 2) * C"
  define E :: rat where "E = (2 ^ 51 + W) / 2 ^ 53"
  define x1 :: rat where "x1 = of_int v / C"
  define q where "q = double x1"
  define m where "m = \<lfloor>q + 1 / 2\<rfloor>"
  define x2 :: rat where "x2 = of_int m * C"
  define r where "r = double x2"
  define p where "p = \<lfloor>r + 1 / 2\<rfloor>"
  have Cpos: "0 < C" by (simp add: C_def)
  have num: "W + E + 1 / 2 < 3" by (simp add: E_def W_def K_def C_def)
  have rt: "convertSize (convertSize (of_int v) Px Mm) Mm Px = of_int p"
    by (simp add: convertSize_def Math_round_def mmToPx_value p_def r_def x2_def m_def q_def
        x1_def C_def)
  have vb: "\<bar>of_int v :: rat\<bar> \<le> 2 ^ 51"
    using assms by (simp only: of_int_abs [symmetric] of_int_le_numeral_power_cancel_iff)
  have x1v: "x1 * C = of_int v" using Cpos by (simp add: x1_def)
  have x1b: "\<bar>x1\<bar> \<le> 2 ^ 51 / C"
    using vb Cpos by (simp add: x1_def abs_divide divide_right_mono)
  have "\<bar>q - x1\<bar> \<le> \<bar>x1\<bar> / 2 ^ 53" unfolding q_def by (rule double_error)
  also have "\<dots> \<le> K" unfolding K_def using x1b by (simp add: divide_right_mono)
  finally have qe: "\<bar>q - x1\<bar> \<le> K" .
  have m1: "of_int m \<le> q + 1 / 2" and m2: "q + 1 / 2 < of_int m + 1"
    unfolding m_def by linarith+
  have "of_int m \<le> x1 + (K + 1 / 2)" using m1 qe by linarith
  then have "of_int m * C \<le> (x1 + (K + 1 / 2)) * C"
    using Cpos by (simp add: mult_right_mono)
  then have up: "x2 \<le> of_int v + W"
    by (simp add: x2_def W_def x1v distrib_right)
  have "x1 - (K + 1 / 2) \<le> of_int m" using m2 qe by linarith
  then have "(x1 - (K + 1 / 2)) * C \<le> of_int m * C"
    using Cpos by (simp add: mult_right_mono)
  then have lo: "of_int v - W \<le> x2"
    by (simp add: x2_def W_def x1v left_diff_distrib)
  have x2b: "\<bar>x2\<bar> \<le> 2 ^ 51 + W" using up lo vb by linarith
  have "\<bar>r - x2\<bar> \<le> \<bar>x2\<bar> / 2 ^ 53" unfolding r_def by (rule double_error)
  also have "\<dots> \<le> E" unfolding E_def using x2b by (simp add: divide_right_mono)
  finally have re: "\<bar>r - x2\<bar> \<le> E" .
  have p1: "of_int p \<le> r + 1 / 2" and p2: "r + 1 / 2 < of_int p + 1"
    unfolding p_def by linarith+
  have "(of_int p :: rat) < of_int v + 3"
    using p1 re up num by linarith
  moreover have "(of_int v :: rat) - 3 < of_int p"
    using p2 re lo num by linarith
  ultimately have "p < v + 3" "v - 3 < p"
    by (simp_all flip: of_int_less_iff [where 'a = rat])
  then have "\<bar>p - v\<bar> \<le> 2" by linarith
  then have "\<bar>of_int (p - v) :: rat\<bar> \<le> 2"
    by (simp only: of_int_abs [symmetric] of_int_le_numeral_iff)
  then show ?thesis by (simp add: rt)
qed

theorem convertSize_roundtrip_within_two_witness:
  "\<bar>240 :: int\<bar> \<le> 2 ^ 51
   \<and> \<bar>convertSize (convertSize (of_int 240) Px Mm) Mm Px - of_int 240\<bar> \<le> 2
   \<and> convertSize (convertSize 240 Px Mm) Mm Px = 238"
proof -
  have h: "\<bar>240 :: int\<bar> \<le> 2 ^ 51" by simp
  show ?thesis
    using h convertSize_roundtrip_within_two [OF h] by (simp add: convertSize_examples)
qed

section \<open>Properties of the word processor\<close>

text \<open>
  Cutting at runs with a one-character look-behind and cutting with \<open>takeWhile\<close> and
  \<open>dropWhile\<close> give the same pieces. Both states of the scanner are needed for the
  induction: inside a run the current piece is empty.
\<close>

lemma cutAtRuns_split_general:
  "cutAtRuns True [] s = split (dropWhile isSeparator s)
   \<and> cutAtRuns False cur s =
       (rev cur @ takeWhile (\<lambda>c. \<not> isSeparator c) s) #
       (if dropWhile (\<lambda>c. \<not> isSeparator c) s = [] then []
        else split (dropWhile isSeparator (dropWhile (\<lambda>c. \<not> isSeparator c) s)))"
proof (induction s arbitrary: cur)
  case Nil
  show ?case by (simp add: split.simps)
next
  case (Cons c cs)
  show ?case
  proof (cases "isSeparator c")
    case True
    then show ?thesis using Cons.IH by simp
  next
    case False
    then show ?thesis using Cons.IH [of "[c]"] Cons.IH [of "c # cur"]
      by (simp add: split.simps [of "c # cs"] Let_def)
  qed
qed

lemma cutAtRuns_split: "cutAtRuns False [] s = split s"
  using cutAtRuns_split_general [of s "[]"] by (simp add: split.simps [of s] Let_def)

lemma uniqueLoop_keepFirst:
  "uniqueLoop ws seen unique = unique @ keepFirst (filter (\<lambda>w. toLowerCase w \<notin> seen) ws)"
proof (induction ws arbitrary: seen unique)
  case Nil
  show ?case by simp
next
  case (Cons w ws)
  have f: "(\<lambda>v. toLowerCase v \<noteq> toLowerCase w \<and> toLowerCase v \<notin> seen)
         = (\<lambda>v. toLowerCase v \<notin> seen \<and> toLowerCase v \<noteq> toLowerCase w)"
    by auto
  show ?case using Cons.IH by (simp add: Let_def f)
qed

lemma processWords_eq_spec: "processWords x = process_spec x"
proof (cases "x = []")
  case True
  then show ?thesis by (simp add: processWords_def process_spec_def trim_def)
next
  case False
  then show ?thesis
    by (simp add: processWords_def process_spec_def cutAtRuns_split uniqueLoop_keepFirst)
qed

text \<open>
  C5: \<open>processWords\<close> computes what the specification describes (cut at runs of commas
  and line feeds, trim, drop the empty candidates, keep the first of the words equal up
  to case, in order of first appearance), and on the text \<open>Apple, apple, Banana\<close>, a line
  feed, \<open>Cherry\<close> it returns Apple, Banana, Cherry.
\<close>

theorem processWords_refines_spec:
  "processWords x = process_spec x
   \<and> processWords (''Apple, apple, Banana'' @ [CHR 0x0A] @ ''Cherry'')
       = [''Apple'', ''Banana'', ''Cherry'']"
proof
  show "processWords x = process_spec x"
    by (rule processWords_eq_spec)
  show "processWords (''Apple, apple, Banana'' @ [CHR 0x0A] @ ''Cherry'')
          = [''Apple'', ''Banana'', ''Cherry'']"
    by code_simp
qed

lemma split_pieces_sepfree: "p \<in> set (split s) \<Longrightarrow> c \<in> set p \<Longrightarrow> \<not> isSeparator c"
proof (induction s arbitrary: p rule: split.induct)
  case (1 s)
  let ?rest = "dropWhile (\<lambda>c. \<not> isSeparator c) s"
  from "1.prems"(1) have "p = takeWhile (\<lambda>c. \<not> isSeparator c) s
      \<or> (?rest \<noteq> [] \<and> p \<in> set (split (dropWhile isSeparator ?rest)))"
    by (subst (asm) split.simps) (auto simp: Let_def split: if_splits)
  then show ?case
  proof
    assume "p = takeWhile (\<lambda>c. \<not> isSeparator c) s"
    with "1.prems"(2) show ?thesis by (auto dest: set_takeWhileD)
  next
    assume "?rest \<noteq> [] \<and> p \<in> set (split (dropWhile isSeparator ?rest))"
    then show ?thesis using "1.IH" [OF refl refl _ _ "1.prems"(2)] by blast
  qed
qed

lemma set_trim: "set (trim s) \<subseteq> set s"
proof -
  have "set (trim s) \<subseteq> set (dropWhile isWhiteSpace s)"
    unfolding trim_def using set_dropWhileD [of _ isWhiteSpace "rev (dropWhile isWhiteSpace s)"]
    by auto
  then show ?thesis using set_dropWhileD [of _ isWhiteSpace s] by blast
qed

lemma trim_idem: "trim (trim s) = trim s"
proof -
  define u where "u = dropWhile isWhiteSpace s"
  define v where "v = dropWhile isWhiteSpace (rev u)"
  have t: "trim s = rev v" by (simp add: trim_def u_def v_def)
  have "dropWhile isWhiteSpace (rev v) = rev v"
  proof (cases "v = []")
    case True then show ?thesis by simp
  next
    case False
    have ru: "rev u = takeWhile isWhiteSpace (rev u) @ v"
      by (simp add: v_def)
    from False have une: "u \<noteq> []" by (auto simp: v_def)
    have "last v = last (rev u)" using ru False by (metis last_appendR)
    then have "hd (rev v) = hd u" using False une by (simp add: hd_rev last_rev)
    moreover have "\<not> isWhiteSpace (hd u)"
      using une unfolding u_def by (rule hd_dropWhile)
    ultimately show ?thesis using False by (cases "rev v") auto
  qed
  moreover have "dropWhile isWhiteSpace v = v" by (simp add: v_def)
  ultimately show ?thesis by (simp add: t) (simp add: trim_def)
qed

lemma split_sepfree: "\<forall>c\<in>set w. \<not> isSeparator c \<Longrightarrow> split w = [w]"
  by (subst split.simps) (simp add: Let_def)

lemma split_join:
  "ws \<noteq> [] \<Longrightarrow> \<forall>w\<in>set ws. w \<noteq> [] \<and> (\<forall>c\<in>set w. \<not> isSeparator c)
   \<Longrightarrow> split (join '','' ws) = ws"
proof (induction "'',''" ws rule: join.induct)
  case 1
  then show ?case by simp
next
  case (2 w)
  then show ?case by (simp add: split_sepfree)
next
  case (3 w v ws)
  let ?j = "join '','' (v # ws)"
  have w: "\<forall>c\<in>set w. \<not> isSeparator c" using "3.prems" by simp
  have v: "v \<noteq> []" "\<not> isSeparator (hd v)" using "3.prems" by auto
  have jhd: "?j \<noteq> [] \<and> hd ?j = hd v" using v by (cases ws) auto
  have sep: "isSeparator CHR '',''" by (simp add: isSeparator_def)
  have tw: "takeWhile (\<lambda>c. \<not> isSeparator c) (w @ CHR '','' # ?j) = w"
    using w sep by (simp add: takeWhile_append)
  have dw: "dropWhile (\<lambda>c. \<not> isSeparator c) (w @ CHR '','' # ?j) = CHR '','' # ?j"
    using w sep by (simp add: dropWhile_append)
  have dj: "dropWhile isSeparator ?j = ?j"
    using jhd v by (cases ?j) auto
  have "split (w @ CHR '','' # ?j) = w # split ?j"
    by (subst split.simps) (simp add: Let_def tw dw sep dj del: join.simps)
  then show ?case using 3 by simp
qed

lemma set_keepFirst: "set (keepFirst ws) \<subseteq> set ws"
  by (induction ws rule: keepFirst.induct) auto

lemma distinct_keepFirst: "distinct (map toLowerCase (keepFirst ws))"
proof (induction ws rule: keepFirst.induct)
  case 1
  show ?case by simp
next
  case (2 w ws)
  have "toLowerCase w \<notin> toLowerCase ` set (keepFirst (filter (\<lambda>v. toLowerCase v \<noteq> toLowerCase w) ws))"
    using set_keepFirst [of "filter (\<lambda>v. toLowerCase v \<noteq> toLowerCase w) ws"] by auto
  then show ?case using 2 by simp
qed

lemma keepFirst_distinct: "distinct (map toLowerCase ws) \<Longrightarrow> keepFirst ws = ws"
proof (induction ws)
  case Nil
  show ?case by simp
next
  case (Cons w ws)
  then have "filter (\<lambda>v. toLowerCase v \<noteq> toLowerCase w) ws = ws"
    by (auto simp: filter_id_conv) (metis imageI)
  then show ?case using Cons by simp
qed

lemma candidates_props:
  assumes "w \<in> set (filter (\<lambda>w. w \<noteq> []) (map trim (split x)))"
  shows "w \<noteq> []" and "\<forall>c\<in>set w. \<not> isSeparator c" and "trim w = w"
proof -
  from assms obtain p where p: "p \<in> set (split x)" "w = trim p" and ne: "w \<noteq> []"
    by auto
  show "w \<noteq> []" by (rule ne)
  show "\<forall>c\<in>set w. \<not> isSeparator c"
    using p set_trim [of p] split_pieces_sepfree [of p x] by blast
  show "trim w = w" using p by (simp add: trim_idem)
qed

text \<open>
  C9: processing is idempotent. Joining the words \<open>processWords x\<close> returns with commas
  and processing that text again returns the same list of words.
\<close>

theorem processWords_idempotent: "processWords (join '','' (processWords x)) = processWords x"
proof -
  define ws where "ws = processWords x"
  define cands where "cands = filter (\<lambda>w. w \<noteq> []) (map trim (split x))"
  have eq: "ws = keepFirst cands"
    by (simp add: ws_def processWords_eq_spec process_spec_def cands_def cutAtRuns_split)
  have sub: "set ws \<subseteq> set cands" unfolding eq by (rule set_keepFirst)
  have dist: "distinct (map toLowerCase ws)" unfolding eq by (rule distinct_keepFirst)
  show ?thesis
  proof (cases "ws = []")
    case True
    then show ?thesis unfolding ws_def [symmetric] by (simp add: processWords_def)
  next
    case False
    have good: "\<forall>w\<in>set ws. w \<noteq> [] \<and> (\<forall>c\<in>set w. \<not> isSeparator c)"
      using sub candidates_props(1,2) [of _ x] unfolding cands_def by blast
    have tr: "map trim ws = ws"
      by (rule map_idI) (use sub candidates_props(3) [of _ x] in \<open>unfold cands_def, blast\<close>)
    have ne: "filter (\<lambda>w. w \<noteq> []) ws = ws"
      using good by (auto simp: filter_id_conv)
    have sj: "split (join '','' ws) = ws" using False good by (rule split_join)
    have "process_spec (join '','' ws) = keepFirst ws"
      by (simp add: process_spec_def cutAtRuns_split sj tr ne)
    also have "\<dots> = ws" using dist by (rule keepFirst_distinct)
    finally show ?thesis unfolding ws_def [symmetric] by (simp add: processWords_eq_spec)
  qed
qed

section \<open>Properties of the card generator\<close>

lemma random_index_le:
  assumes "0 \<le> r" "r < 1"
  shows "nat (Math_floor (r * (of_nat i + 1))) \<le> i"
proof -
  have "r * (of_nat i + 1) < of_nat i + 1"
    using assms by (simp add: mult_less_cancel_right2 add_pos_nonneg)
  then have "\<lfloor>r * (of_nat i + 1)\<rfloor> < int i + 1"
    by (subst floor_less_iff) simp
  then show ?thesis by (simp add: Math_floor_def)
qed

lemma shuffleLoop_mset:
  "unitSource rnd \<Longrightarrow> k < length xs \<or> k = 0
   \<Longrightarrow> mset (fst (shuffleLoop rnd k xs calls)) = mset xs"
proof (induction k arbitrary: xs calls)
  case 0
  show ?case by simp
next
  case (Suc k)
  let ?j = "nat (Math_floor (rnd calls * (of_nat (Suc k) + 1)))"
  let ?ys = "xs[Suc k := xs ! ?j, ?j := xs ! Suc k]"
  from Suc.prems have i: "Suc k < length xs" by simp
  have "?j \<le> Suc k"
    using Suc.prems(1) by (intro random_index_le) (simp_all add: unitSource_def)
  with i have j: "?j < length xs" by simp
  have "mset ?ys = mset xs" using i j by (simp add: mset_swap)
  moreover have "mset (fst (shuffleLoop rnd k ?ys (Suc calls))) = mset ?ys"
    using Suc.prems(1) i by (intro Suc.IH) simp_all
  ultimately show ?case by (simp add: Let_def)
qed

lemma shuffleLoop_calls: "snd (shuffleLoop rnd k xs calls) = calls + k"
  by (induction k arbitrary: xs calls) (simp_all add: Let_def)

lemma shuffleArray_mset:
  "unitSource rnd \<Longrightarrow> mset (fst (shuffleArray rnd xs calls)) = mset xs"
  unfolding shuffleArray_def by (rule shuffleLoop_mset) (cases xs, auto)

lemma shuffleArray_calls: "snd (shuffleArray rnd xs calls) = calls + (length xs - 1)"
  by (simp add: shuffleArray_def shuffleLoop_calls)

lemma generateSingleCard_enough:
  "g * g \<le> int (length ws) \<Longrightarrow>
   generateSingleCard rnd ws g cid calls =
     Inr (\<lparr>cardId = cid, words = take (nat (g * g)) (fst (shuffleArray rnd ws calls)),
            cardGridSize = g\<rparr>, calls + (length ws - 1))"
proof -
  assume enough: "g * g \<le> int (length ws)"
  obtain sh c where sc: "shuffleArray rnd ws calls = (sh, c)"
    by (cases "shuffleArray rnd ws calls")
  then have "c = calls + (length ws - 1)"
    using shuffleArray_calls [of rnd ws calls] by simp
  then show ?thesis using enough by (simp add: generateSingleCard_def Let_def sc)
qed

text \<open>
  C1: with a random source in the unit interval, a pool \<open>P\<close> whose words are distinct up
  to case and a grid size \<open>g\<close> with \<open>g * g\<close> at most the size of the pool,
  \<open>generateSingleCard\<close> returns a card with exactly \<open>g * g\<close> words, distinct up to case
  and all from \<open>P\<close>. (That the words of the pool are trimmed and not empty is not
  needed.)
\<close>

theorem generateSingleCard_card:
  assumes "unitSource rnd" and "distinct (map toLowerCase P)" and "g * g \<le> int (length P)"
  shows "\<exists>c calls'. generateSingleCard rnd P g cid calls = Inr (c, calls')
           \<and> int (length (words c)) = g * g
           \<and> distinct (map toLowerCase (words c))
           \<and> set (words c) \<subseteq> set P"
proof -
  let ?sh = "fst (shuffleArray rnd P calls)"
  let ?sel = "take (nat (g * g)) ?sh"
  have m: "mset ?sh = mset P" using assms(1) by (rule shuffleArray_mset)
  then have len: "length ?sh = length P" by (rule mset_eq_length)
  have "mset (map toLowerCase ?sh) = mset (map toLowerCase P)" using m by simp
  then have "distinct (map toLowerCase ?sh)"
    using assms(2) by (metis mset_eq_imp_distinct_iff)
  then have d: "distinct (map toLowerCase ?sel)"
    by (simp add: take_map [symmetric])
  have s: "set ?sel \<subseteq> set P"
    using set_take_subset [of "nat (g * g)" ?sh] mset_eq_setD [OF m] by simp
  have l: "int (length ?sel) = g * g" using len assms(3) by simp
  show ?thesis
    using generateSingleCard_enough [OF assms(3), of rnd cid calls] d s l by simp
qed


lemma showInt_examples: "showInt 25 = ''25''" "showInt 20 = ''20''"
  by code_simp+

theorem generateSingleCard_card_witness:
  "unitSource (\<lambda>_. 1 / 2)
   \<and> distinct (map toLowerCase [''A'', ''b'', ''C'', ''d''])
   \<and> (2::int) * 2 \<le> int (length [''A'', ''b'', ''C'', ''d''])
   \<and> (\<exists>c calls'. generateSingleCard (\<lambda>_. 1 / 2) [''A'', ''b'', ''C'', ''d''] 2 ''card-1'' 0
                      = Inr (c, calls')
         \<and> int (length (words c)) = 2 * 2
         \<and> distinct (map toLowerCase (words c))
         \<and> set (words c) \<subseteq> set [''A'', ''b'', ''C'', ''d''])"
proof -
  have h1: "unitSource (\<lambda>_. 1 / 2)" by (simp add: unitSource_def)
  have h2: "distinct (map toLowerCase [''A'', ''b'', ''C'', ''d''])" by code_simp
  have h3: "(2::int) * 2 \<le> int (length [''A'', ''b'', ''C'', ''d''])" by simp
  show ?thesis
    using generateSingleCard_card [OF h1 h2 h3, of "''card-1''" 0] h1 h2 h3 by blast
qed

lemma upt_0_Suc_shift: "map f [0..<Suc n] = f 0 # map (\<lambda>k. f (Suc k)) [0..<n]"
  by (simp add: upt_conv_Cons map_Suc_upt [symmetric] del: upt_Suc)

lemma cardsLoop_closed:
  assumes enough: "gridSize config * gridSize config \<le> int (length ws)"
  shows "n = nat (numCards config - i) \<Longrightarrow>
    cardsLoop rnd ws config i cards calls =
      Inr (cards @ map (\<lambda>k. \<lparr>cardId = ''card-'' @ showInt (i + int k + 1),
                               words = take (nat (gridSize config * gridSize config))
                                         (fst (shuffleArray rnd ws (calls + k * (length ws - 1)))),
                               cardGridSize = gridSize config\<rparr>) [0..<n],
           calls + n * (length ws - 1))"
proof (induction n arbitrary: i cards calls)
  case 0
  then have "\<not> i < numCards config" by simp
  then show ?case by (subst cardsLoop.simps) simp
next
  case (Suc n)
  then have lt: "i < numCards config" and n: "n = nat (numCards config - (i + 1))" by simp_all
  let ?c = "\<lparr>cardId = ''card-'' @ showInt (i + 1),
              words = take (nat (gridSize config * gridSize config)) (fst (shuffleArray rnd ws calls)),
              cardGridSize = gridSize config\<rparr>"
  have step: "cardsLoop rnd ws config i cards calls =
              cardsLoop rnd ws config (i + 1) (cards @ [?c]) (calls + (length ws - 1))"
    using lt by (subst cardsLoop.simps) (simp add: generateSingleCard_enough [OF enough])
  show ?case
    unfolding step Suc.IH [OF n] upt_0_Suc_shift
    by (simp add: add.assoc add.commute add.left_commute)
qed


text \<open>
  C2: when the pool has fewer than \<open>g * g\<close> words, \<open>generateSingleCard\<close> and
  \<open>generateBingoCards\<close> (with \<open>gridSize = g\<close>) both throw an error whose message gives
  the number needed, \<open>g * g\<close>, and the number of words there are; the result is the
  error alone, with no card, and \<open>generateBingoCards\<close> throws it before it consults the
  random source, so whatever the source and the number of cards asked for.
\<close>

theorem insufficient_words_error:
  assumes "int (length P) < g * g" and "gridSize config = g"
  shows "generateSingleCard rnd P g cid calls =
           Inl (Error (''Not enough unique words. Need '' @ showInt (g * g)
                       @ '', have '' @ showInt (int (length P))))
       \<and> generateBingoCards rnd P config calls =
           Inl (Error (''Not enough unique words. Need at least '' @ showInt (g * g)
                       @ '', have '' @ showInt (int (length P))))
       \<and> generateBingoCards rnd' P config calls' = generateBingoCards rnd P config calls"
  using assms by (simp add: generateSingleCard_def generateBingoCards_def Let_def)

theorem insufficient_words_error_witness:
  "int (length [''a'', ''b'', ''c'', ''d'', ''e'', ''f'', ''g'', ''h'', ''i'', ''j'',
                ''k'', ''l'', ''m'', ''n'', ''o'', ''p'', ''q'', ''r'', ''s'', ''t'']) < 5 * 5
   \<and> gridSize \<lparr>gridSize = 5, numCards = 3, allowRepetition = True\<rparr> = 5
   \<and> generateSingleCard (\<lambda>_. 0)
        [''a'', ''b'', ''c'', ''d'', ''e'', ''f'', ''g'', ''h'', ''i'', ''j'',
         ''k'', ''l'', ''m'', ''n'', ''o'', ''p'', ''q'', ''r'', ''s'', ''t''] 5 ''card-1'' 0
       = Inl (Error ''Not enough unique words. Need 25, have 20'')
   \<and> generateBingoCards (\<lambda>_. 0)
        [''a'', ''b'', ''c'', ''d'', ''e'', ''f'', ''g'', ''h'', ''i'', ''j'',
         ''k'', ''l'', ''m'', ''n'', ''o'', ''p'', ''q'', ''r'', ''s'', ''t'']
        \<lparr>gridSize = 5, numCards = 3, allowRepetition = True\<rparr> 0
       = Inl (Error ''Not enough unique words. Need at least 25, have 20'')"
  using insufficient_words_error
    [where P = "[''a'', ''b'', ''c'', ''d'', ''e'', ''f'', ''g'', ''h'', ''i'', ''j'',
          ''k'', ''l'', ''m'', ''n'', ''o'', ''p'', ''q'', ''r'', ''s'', ''t'']" and g = 5
       and config = "\<lparr>gridSize = 5, numCards = 3, allowRepetition = True\<rparr>"
       and rnd = "\<lambda>_. 0" and cid = "''card-1''" and calls = 0]
  by (simp add: showInt_examples)

text \<open>
  C4: the batch \<open>generateBingoCards\<close> returns does not depend on \<open>allowRepetition\<close>;
  and when the pool is large enough for one card, the batch has \<open>numCards\<close> cards, card
  \<open>i\<close> (from 0) being what \<open>generateSingleCard\<close> returns on the whole pool \<open>P\<close> with
  the identifier \<open>card-(i+1)\<close>, at the point the random source has reached after the
  \<open>i\<close> shuffles before it.
\<close>

theorem allowRepetition_noninterference:
  "generateBingoCards rnd P (config\<lparr>allowRepetition := b\<rparr>) calls
     = generateBingoCards rnd P (config\<lparr>allowRepetition := b'\<rparr>) calls
   \<and> (gridSize config * gridSize config \<le> int (length P) \<longrightarrow>
        (\<exists>cards. generateBingoCards rnd P config calls
                    = Inr (cards, calls + nat (numCards config) * (length P - 1))
           \<and> length cards = nat (numCards config)
           \<and> (\<forall>i < nat (numCards config).
                 generateSingleCard rnd P (gridSize config) (''card-'' @ showInt (int i + 1))
                     (calls + i * (length P - 1))
                   = Inr (cards ! i, calls + i * (length P - 1) + (length P - 1)))))"
proof
  show "generateBingoCards rnd P (config\<lparr>allowRepetition := b\<rparr>) calls
          = generateBingoCards rnd P (config\<lparr>allowRepetition := b'\<rparr>) calls"
  proof (cases "gridSize config * gridSize config \<le> int (length P)")
    case True
    then show ?thesis
      using cardsLoop_closed [where config = "config\<lparr>allowRepetition := b\<rparr>" and ws = P
                and i = 0 and rnd = rnd and cards = "[]" and calls = calls, OF _ refl]
            cardsLoop_closed [where config = "config\<lparr>allowRepetition := b'\<rparr>" and ws = P
                and i = 0 and rnd = rnd and cards = "[]" and calls = calls, OF _ refl]
      by (simp add: generateBingoCards_def Let_def)
  next
    case False
    then show ?thesis by (simp add: generateBingoCards_def Let_def)
  qed
next
  show "gridSize config * gridSize config \<le> int (length P) \<longrightarrow>
        (\<exists>cards. generateBingoCards rnd P config calls
                    = Inr (cards, calls + nat (numCards config) * (length P - 1))
           \<and> length cards = nat (numCards config)
           \<and> (\<forall>i < nat (numCards config).
                 generateSingleCard rnd P (gridSize config) (''card-'' @ showInt (int i + 1))
                     (calls + i * (length P - 1))
                   = Inr (cards ! i, calls + i * (length P - 1) + (length P - 1))))"
  proof
    assume enough: "gridSize config * gridSize config \<le> int (length P)"
    have "generateBingoCards rnd P config calls = cardsLoop rnd P config 0 [] calls"
      using enough by (simp add: generateBingoCards_def Let_def)
    then show "\<exists>cards. generateBingoCards rnd P config calls
                    = Inr (cards, calls + nat (numCards config) * (length P - 1))
           \<and> length cards = nat (numCards config)
           \<and> (\<forall>i < nat (numCards config).
                 generateSingleCard rnd P (gridSize config) (''card-'' @ showInt (int i + 1))
                     (calls + i * (length P - 1))
                   = Inr (cards ! i, calls + i * (length P - 1) + (length P - 1)))"
      using cardsLoop_closed [OF enough refl, where i = 0 and rnd = rnd and cards = "[]" and calls = calls]
      by (simp add: generateSingleCard_enough [OF enough])
  qed
qed

theorem allowRepetition_noninterference_witness:
  "generateBingoCards (\<lambda>k. if even k then 0 else 3 / 4) [''A'', ''b'', ''C'', ''d'', ''e'']
      (\<lparr>gridSize = 2, numCards = 2, allowRepetition = False\<rparr>\<lparr>allowRepetition := True\<rparr>) 0
     = generateBingoCards (\<lambda>k. if even k then 0 else 3 / 4) [''A'', ''b'', ''C'', ''d'', ''e'']
      (\<lparr>gridSize = 2, numCards = 2, allowRepetition = False\<rparr>\<lparr>allowRepetition := False\<rparr>) 0
   \<and> (2::int) * 2 \<le> int (length [''A'', ''b'', ''C'', ''d'', ''e''])
   \<and> (\<exists>cards. generateBingoCards (\<lambda>k. if even k then 0 else 3 / 4)
                  [''A'', ''b'', ''C'', ''d'', ''e'']
                  \<lparr>gridSize = 2, numCards = 2, allowRepetition = False\<rparr> 0 = Inr (cards, 8)
        \<and> length cards = 2
        \<and> generateSingleCard (\<lambda>k. if even k then 0 else 3 / 4)
              [''A'', ''b'', ''C'', ''d'', ''e''] 2 ''card-2'' 4 = Inr (cards ! 1, 8))"
proof -
  have sh: "showInt 2 = ''2''" by code_simp
  show ?thesis
  using allowRepetition_noninterference
    [where rnd = "\<lambda>k. if even k then 0 else 3 / 4" and P = "[''A'', ''b'', ''C'', ''d'', ''e'']"
       and config = "\<lparr>gridSize = 2, numCards = 2, allowRepetition = False\<rparr>"
       and b = True and b' = False and calls = 0]
    by (auto simp: sh eval_nat_numeral dest!: spec [of _ "1::nat"])
qed

text \<open>
  An example with \<open>allowRepetition = False\<close>: both cards draw from all five words, and
  with this source they hold the same four.
\<close>

lemma generateBingoCards_example: "generateBingoCards (\<lambda>k. if even k then 0 else 3 / 4) [''A'', ''b'', ''C'', ''d'', ''e'']
      \<lparr>gridSize = 2, numCards = 2, allowRepetition = False\<rparr> 0 =
   Inr ([\<lparr>cardId = ''card-1'', words = [''C'', ''b'', ''e'', ''d''], cardGridSize = 2\<rparr>,
       \<lparr>cardId = ''card-2'', words = [''C'', ''b'', ''e'', ''d''], cardGridSize = 2\<rparr>], 8)"
  by code_simp

section \<open>Properties of the grid layout\<close>

lemma addImage_last:
  "err \<lparr>imgData = d, xPos = x, yPos = y, imgWidth = w, imgHeight = h\<rparr> = None \<Longrightarrow>
   addImage err d x y w h (front @ [page]) =
     Inr (front @ [page @ [\<lparr>imgData = d, xPos = x, yPos = y, imgWidth = w, imgHeight = h\<rparr>]])"
  by (simp add: addImage_def nth_append)

lemma gridPages_full_prefix:
  "map (\<lambda>p. take 4 (drop (4 * p) (xs @ ys))) [0..<length xs div 4]
     = map (\<lambda>p. take 4 (drop (4 * p) xs)) [0..<length xs div 4]"
  by (rule map_cong) auto

lemma gridPages_split:
  "gridPages xs = map (\<lambda>p. take 4 (drop (4 * p) xs)) [0..<length xs div 4]
                  @ (if length xs mod 4 = 0 then [] else [drop (4 * (length xs div 4)) xs])"
proof (cases "length xs mod 4 = 0")
  case True
  then have "(length xs + 3) div 4 = length xs div 4" by presburger
  with True show ?thesis by (simp add: gridPages_def)
next
  case False
  then have "(length xs + 3) div 4 = Suc (length xs div 4)" by presburger
  moreover have "length (drop (4 * (length xs div 4)) xs) \<le> 4"
    by simp
  ultimately show ?thesis using False by (simp add: gridPages_def)
qed

lemma gridPages_snoc:
  "gridPages (xs @ [x]) = map (\<lambda>p. take 4 (drop (4 * p) xs)) [0..<length xs div 4]
                          @ [drop (4 * (length xs div 4)) xs @ [x]]"
proof -
  have n: "(length (xs @ [x]) + 3) div 4 = Suc (length xs div 4)" by simp
  have le: "4 * (length xs div 4) \<le> length xs" by presburger
  have "length (drop (4 * (length xs div 4)) xs) < 4" by simp
  then have "take 4 (drop (4 * (length xs div 4)) (xs @ [x])) = drop (4 * (length xs div 4)) xs @ [x]"
    using le by simp
  then show ?thesis
    unfolding gridPages_def n by (simp add: gridPages_full_prefix del: length_append)
qed

text \<open>
  One turn of the loop, when \<^verbatim>\<open>jsPDF\<close> accepts the image: the document of the images placed
  so far becomes the document of these and the new one.
\<close>

lemma grid_step:
  assumes "err \<lparr>imgData = d, xPos = x, yPos = y, imgWidth = w, imgHeight = h\<rparr> = None"
  shows "addImage err d x y w h
     (if length placed mod 4 = 0 \<and> length placed > 0
      then addPage (if placed = [] then jsPDF else gridPages placed)
      else (if placed = [] then jsPDF else gridPages placed))
   = Inr (gridPages (placed @ [\<lparr>imgData = d, xPos = x, yPos = y, imgWidth = w, imgHeight = h\<rparr>]))"
proof (cases "placed = []")
  case True
  then show ?thesis using assms by (simp add: gridPages_def jsPDF_def addImage_def)
next
  case False
  show ?thesis
  proof (cases "length placed mod 4 = 0")
    case True
    then have "4 * (length placed div 4) = length placed" by presburger
    then show ?thesis using True False
      using assms
      by (simp add: gridPages_snoc gridPages_split [of placed] addPage_def addImage_last)
  next
    case False
    then show ?thesis using \<open>placed \<noteq> []\<close>
      using assms
      by (simp add: gridPages_snoc gridPages_split [of placed] addImage_last)
  qed
qed

lemma exportLoop_grid:
  "map (html2canvas L) rest = map Inr cs \<Longrightarrow>
   map (toDataURL L) cs = map Inr urls \<Longrightarrow>
   \<forall>k < length urls. addImageError L (gridPlace pw ph (length placed + k) (urls ! k)) = None \<Longrightarrow>
   exportLoop L MultiplePerPage pw ph (length placed) rest
       (if placed = [] then jsPDF else gridPages placed)
     = Inr (if placed = [] \<and> rest = [] then jsPDF
            else gridPages (placed @ map2 (gridPlace pw ph)
                                       [length placed..<length placed + length urls] urls))"
proof (induction rest arbitrary: placed cs urls)
  case Nil
  then show ?case by simp
next
  case (Cons e rest)
  from Cons.prems(1) obtain c cs' where cs: "cs = c # cs'" and c: "html2canvas L e = Inr c"
    and r: "map (html2canvas L) rest = map Inr cs'"
    by (cases cs) auto
  from Cons.prems(2) cs obtain u urls' where urls: "urls = u # urls'"
    and u: "toDataURL L c = Inr u" and t: "map (toDataURL L) cs' = map Inr urls'"
    by (cases urls) auto
  let ?img = "gridPlace pw ph (length placed) u"
  have ok: "addImageError L ?img = None"
    using Cons.prems(3) [rule_format, of 0] by (simp add: urls)
  have oks: "\<forall>k < length urls'.
               addImageError L (gridPlace pw ph (length (placed @ [?img]) + k) (urls' ! k)) = None"
    using Cons.prems(3) [rule_format, of "Suc k" for k] by (simp add: urls)
  have imgs: "map2 (gridPlace pw ph) [length placed..<length placed + length urls] urls =
              ?img # map2 (gridPlace pw ph)
                       [Suc (length placed)..<Suc (length placed) + length urls'] urls'"
  proof -
    have "[length placed..<length placed + length urls] =
          length placed # [Suc (length placed)..<Suc (length placed) + length urls']"
      by (simp add: urls upt_conv_Cons del: upt_Suc)
    then show ?thesis by (simp add: urls del: upt_Suc)
  qed
  have "exportLoop L MultiplePerPage pw ph (length placed) (e # rest)
          (if placed = [] then jsPDF else gridPages placed)
        = exportLoop L MultiplePerPage pw ph (length (placed @ [?img])) rest
            (gridPages (placed @ [?img]))"
    using grid_step [where err = "addImageError L" and d = u and placed = placed
            and x = "10 + of_nat (length placed mod 4 mod 2) * ((pw - 20) / 2 + 5)"
            and y = "10 + of_nat (length placed mod 4 div 2) * ((ph - 20) / 2 + 5)"
            and w = "(pw - 20) / 2" and h = "(ph - 20) / 2"] ok
    by (simp add: c u Let_def gridPlace_def)
  also have "\<dots> = Inr (gridPages ((placed @ [?img]) @ map2 (gridPlace pw ph)
              [length (placed @ [?img])..<length (placed @ [?img]) + length urls'] urls'))"
    using Cons.IH [OF r t oks] by simp
  finally show ?case by (simp add: imgs)
qed

text \<open>
  C7: when \<open>N\<close> cards are exported with the grid layout and no call of a library throws,
  card \<open>i\<close> (from 0, in the order given) is drawn on page \<open>i div 4\<close> as the image number
  \<open>i mod 4\<close> of that page, in column \<open>i mod 4 mod 2\<close> and row \<open>i mod 4 div 2\<close> of the 2 by
  2 grid; the document has \<open>(N + 3) div 4\<close> pages, the least integer not below \<open>N / 4\<close>,
  and page \<open>p\<close> holds \<open>min 4 (N - 4 * p)\<close> cards. With 5 cards that is 2 pages, of 4 cards
  and of 1 card. An export has at least one card: the page that starts it throws
  \<^verbatim>\<open>No cards to export\<close> on an empty list of elements, before it calls the export.
\<close>

theorem grid_layout_pages:
  assumes "cardElements \<noteq> []"
    and "map (html2canvas L) cardElements = map Inr cs"
    and "map (toDataURL L) cs = map Inr urls"
    and "\<forall>i < length urls. addImageError L (gridPlace pw ph i (urls ! i)) = None"
  shows "\<exists>doc. exportCardsToPDF L cardElements filename MultiplePerPage pw ph
                  = Inr (filename, doc)
           \<and> length doc = (length cardElements + 3) div 4
           \<and> (\<forall>i < length cardElements.
                 doc ! (i div 4) ! (i mod 4) = gridPlace pw ph i (urls ! i))
           \<and> (\<forall>p < length doc. length (doc ! p) = min 4 (length cardElements - 4 * p))"
proof -
  let ?imgs = "map2 (gridPlace pw ph) [0..<length urls] urls"
  have len: "length urls = length cardElements"
    using assms(2,3) by (metis length_map)
  have export: "exportCardsToPDF L cardElements filename MultiplePerPage pw ph
                  = Inr (filename, gridPages ?imgs)"
    using exportLoop_grid [OF assms(2,3), of pw ph "[]"] assms(1,4)
    by (simp add: exportCardsToPDF_def)
  have pages: "length (gridPages ?imgs) = (length cardElements + 3) div 4"
    by (simp add: gridPages_def len)
  have at: "gridPages ?imgs ! (i div 4) ! (i mod 4) = gridPlace pw ph i (urls ! i)"
    if "i < length cardElements" for i
  proof -
    have "i div 4 < (length urls + 3) div 4" using that len by presburger
    then have "gridPages ?imgs ! (i div 4) = take 4 (drop (4 * (i div 4)) ?imgs)"
      by (simp add: gridPages_def)
    moreover have "4 * (i div 4) + i mod 4 = i" by presburger
    ultimately show ?thesis using that len by simp
  qed
  have sz: "length (gridPages ?imgs ! p) = min 4 (length cardElements - 4 * p)"
    if "p < length (gridPages ?imgs)" for p
    using that by (simp add: gridPages_def len min.commute)
  show ?thesis using export pages at sz by blast
qed

theorem grid_layout_pages_witness:
  "[\<lparr>canvasWidth = 600, canvasHeight = 800, pixels = ''c1''\<rparr>,
    \<lparr>canvasWidth = 600, canvasHeight = 800, pixels = ''c2''\<rparr>,
    \<lparr>canvasWidth = 600, canvasHeight = 800, pixels = ''c3''\<rparr>,
    \<lparr>canvasWidth = 600, canvasHeight = 800, pixels = ''c4''\<rparr>,
    \<lparr>canvasWidth = 600, canvasHeight = 800, pixels = ''c5''\<rparr>] \<noteq> []
   \<and> (\<exists>doc. exportCardsToPDF
          \<lparr>html2canvas = Inr, toDataURL = (\<lambda>cv. Inr (pixels cv)), addImageError = (\<lambda>img. None)\<rparr>
          [\<lparr>canvasWidth = 600, canvasHeight = 800, pixels = ''c1''\<rparr>,
           \<lparr>canvasWidth = 600, canvasHeight = 800, pixels = ''c2''\<rparr>,
           \<lparr>canvasWidth = 600, canvasHeight = 800, pixels = ''c3''\<rparr>,
           \<lparr>canvasWidth = 600, canvasHeight = 800, pixels = ''c4''\<rparr>,
           \<lparr>canvasWidth = 600, canvasHeight = 800, pixels = ''c5''\<rparr>]
          ''bingo-cards.pdf'' MultiplePerPage 210 297 = Inr (''bingo-cards.pdf'', doc)
        \<and> length doc = 2
        \<and> length (doc ! 0) = 4
        \<and> length (doc ! 1) = 1
        \<and> doc ! 1 ! 0 = \<lparr>imgData = ''c5'', xPos = 10, yPos = 10, imgWidth = 95, imgHeight = 277 / 2\<rparr>)"
proof -
  let ?els = "[\<lparr>canvasWidth = 600, canvasHeight = 800, pixels = ''c1''\<rparr>,
    \<lparr>canvasWidth = 600, canvasHeight = 800, pixels = ''c2''\<rparr>,
    \<lparr>canvasWidth = 600, canvasHeight = 800, pixels = ''c3''\<rparr>,
    \<lparr>canvasWidth = 600, canvasHeight = 800, pixels = ''c4''\<rparr>,
    \<lparr>canvasWidth = 600, canvasHeight = 800, pixels = ''c5''\<rparr>]"
  let ?urls = "[''c1'', ''c2'', ''c3'', ''c4'', ''c5'']"
  let ?L = "\<lparr>html2canvas = Inr, toDataURL = (\<lambda>cv. Inr (pixels cv)),
             addImageError = (\<lambda>img. None)\<rparr> :: canvas libraries"
  have h1: "?els \<noteq> []" by simp
  have h2: "map (html2canvas ?L) ?els = map Inr ?els" by simp
  have h3: "map (toDataURL ?L) ?els = map Inr ?urls" by simp
  have h4: "\<forall>i < length ?urls. addImageError ?L (gridPlace 210 297 i (?urls ! i)) = None"
    by simp
  from grid_layout_pages [OF h1 h2 h3 h4, of "''bingo-cards.pdf''"]
  obtain doc where e: "exportCardsToPDF ?L ?els ''bingo-cards.pdf'' MultiplePerPage 210 297
                         = Inr (''bingo-cards.pdf'', doc)"
    and l: "length doc = (length ?els + 3) div 4"
    and a: "\<forall>i < length ?els. doc ! (i div 4) ! (i mod 4) = gridPlace 210 297 i (?urls ! i)"
    and z: "\<forall>p < length doc. length (doc ! p) = min 4 (length ?els - 4 * p)"
    by blast
  have l2: "length doc = 2" using l by simp
  have "length (doc ! 0) = 4" using z l2 by simp
  moreover have "length (doc ! 1) = 1" using z l2 by simp
  moreover have "doc ! 1 ! 0 = \<lparr>imgData = ''c5'', xPos = 10, yPos = 10, imgWidth = 95, imgHeight = 277 / 2\<rparr>"
    using a [rule_format, of 4] by (simp add: gridPlace_def)
  ultimately show ?thesis using e l2 h1 by blast
qed

text \<open>The document of the five-card export, page by page.\<close>

lemma exportCardsToPDF_five_cards: "exportCardsToPDF
          \<lparr>html2canvas = Inr, toDataURL = (\<lambda>cv. Inr (pixels cv)), addImageError = (\<lambda>img. None)\<rparr>
          [\<lparr>canvasWidth = 600, canvasHeight = 800, pixels = ''c1''\<rparr>,
           \<lparr>canvasWidth = 600, canvasHeight = 800, pixels = ''c2''\<rparr>,
           \<lparr>canvasWidth = 600, canvasHeight = 800, pixels = ''c3''\<rparr>,
           \<lparr>canvasWidth = 600, canvasHeight = 800, pixels = ''c4''\<rparr>,
           \<lparr>canvasWidth = 600, canvasHeight = 800, pixels = ''c5''\<rparr>]
          ''bingo-cards.pdf'' MultiplePerPage 210 297 = Inr (''bingo-cards.pdf'',
   [[\<lparr>imgData = ''c1'', xPos = 10, yPos = 10, imgWidth = 95, imgHeight = 277 / 2\<rparr>,
     \<lparr>imgData = ''c2'', xPos = 110, yPos = 10, imgWidth = 95, imgHeight = 277 / 2\<rparr>,
     \<lparr>imgData = ''c3'', xPos = 10, yPos = 307 / 2, imgWidth = 95, imgHeight = 277 / 2\<rparr>,
     \<lparr>imgData = ''c4'', xPos = 110, yPos = 307 / 2, imgWidth = 95, imgHeight = 277 / 2\<rparr>],
    [\<lparr>imgData = ''c5'', xPos = 10, yPos = 10, imgWidth = 95, imgHeight = 277 / 2\<rparr>]])"
  by (simp add: exportCardsToPDF_def jsPDF_def addPage_def addImage_def Let_def)

text \<open>
  A call that throws ends the export with the error of the \<^verbatim>\<open>catch\<close> clause, here
  \<^verbatim>\<open>jsPDF\<close> refusing the first image.
\<close>

lemma exportCardsToPDF_addImage_throws: "exportCardsToPDF
          \<lparr>html2canvas = Inr, toDataURL = (\<lambda>cv. Inr (pixels cv)),
           addImageError = (\<lambda>img. Some ''Invalid image data'')\<rparr>
          [\<lparr>canvasWidth = 600, canvasHeight = 800, pixels = ''c1''\<rparr>]
          ''bingo-cards.pdf'' MultiplePerPage 210 297
        = Inl (Error ''PDF export failed: Invalid image data'')"
  by (simp add: exportCardsToPDF_def jsPDF_def addImage_def Let_def)

end
